theory Spec2Isabelle
  imports Main "HOL-Library.Sublist"
begin

section \<open>The output filter of Bear (src/filter.c)\<close>

text \<open>
  The filter decides whether an observed process invocation is a compiler call and, if it
  is, which argument names the source file. The functions of \<^verbatim>\<open>filter.c\<close> are
  translated one by one. What the C code leaves to the C library is a parameter of the
  model:
  \<^item> \<open>regexec\<close>: the result of \<^verbatim>\<open>regexec(ot, input, 0, 0, 0)\<close> for a compiled
    pattern and an input string (\<open>0\<close> reports a match);
  \<^item> \<open>regcomp\<close>: the compiled pattern \<^verbatim>\<open>regcomp(ot, it, REG_EXTENDED)\<close> stores, or
    \<open>None\<close> when it returns a nonzero code;
  \<^item> \<open>mem\<close>: whether the allocator satisfies the request made during the call
    (\<^verbatim>\<open>malloc\<close>, \<^verbatim>\<open>strdup\<close>, \<^verbatim>\<open>asprintf\<close>); \<open>compile\<close> and a classification
    each allocate at most once.
  The type \<open>'r\<close> stands for \<^verbatim>\<open>regex_t\<close>. A C string is a \<open>string\<close> without its
  terminating NUL, a NULL-terminated array of C strings is a list.
\<close>

subsection \<open>Outcomes of a call\<close>

text \<open>
  A call returns a value, ends the process with \<^verbatim>\<open>exit(EXIT_FAILURE)\<close>, or does
  something whose behaviour C leaves undefined (a read outside an array or through a
  pointer that was never assigned, a \<^verbatim>\<open>free\<close> of a block that is not allocated).
\<close>

datatype 'a outcome = Returns 'a | Exit_failure | Undefined_behaviour

fun and_then :: "'a outcome \<Rightarrow> ('a \<Rightarrow> 'b outcome) \<Rightarrow> 'b outcome" where
  "and_then (Returns x) k = k x"
| "and_then Exit_failure k = Exit_failure"
| "and_then Undefined_behaviour k = Undefined_behaviour"

subsection \<open>Data\<close>

text \<open>
  \<^verbatim>\<open>regex_t * regexs\<close> is modelled by the array it designates. The field is
  \<open>Indeterminate\<close> as long as nothing was assigned to it: \<^verbatim>\<open>bear_filter_create\<close> obtains
  the filter from \<^verbatim>\<open>malloc\<close> and hands each member to \<^verbatim>\<open>compile\<close> unassigned.
\<close>

datatype 'r regex_array = Indeterminate | Regexs "'r list"

record 'r regex_list_t =
  length_r :: nat
  regexs :: "'r regex_array"

record 'r bear_output_filter_t =
  compilers :: "'r regex_list_t"
  source_files :: "'r regex_list_t"
  cancel_parameters :: "'r regex_list_t"

text \<open>
  \<^verbatim>\<open>bear_message_t\<close> is declared in a header outside \<^verbatim>\<open>filter.c\<close>; the filter reads
  its members \<^verbatim>\<open>cmd\<close> (a pointer, possibly NULL, to a NULL-terminated argument array)
  and \<^verbatim>\<open>cwd\<close>.
\<close>

record bear_message_t =
  cmd :: "string list option"
  cwd :: string

text \<open>
  The memory a classification call works on: the filter object its first argument points
  to, and the path strings that are allocated on the heap and not yet freed.
\<close>

record 'r memory =
  the_filter :: "'r bear_output_filter_t"
  strings :: "string list"

text \<open>The calls \<^verbatim>\<open>release\<close> makes into the C library, in order.\<close>

datatype 'r libc_call =
  Regfree "'r regex_array" nat
| Free "'r regex_array"

subsection \<open>Reading the array of compiled patterns\<close>

text \<open>\<open>slot a idx\<close> is the object at \<^verbatim>\<open>a + idx\<close>, when there is one.\<close>

fun slot :: "'r regex_array \<Rightarrow> nat \<Rightarrow> 'r option" where
  "slot Indeterminate idx = None"
| "slot (Regexs rs) idx = (if idx < length rs then Some (rs ! idx) else None)"

fun elements :: "'r regex_array \<Rightarrow> 'r list" where
  "elements Indeterminate = []"
| "elements (Regexs rs) = rs"

text \<open>The compiled patterns of a set: the first \<^verbatim>\<open>length\<close> objects of its array.\<close>

definition patterns :: "'r regex_list_t \<Rightarrow> 'r list" where
  "patterns prepared = take (length_r prepared) (elements (regexs prepared))"

text \<open>A set is valid when every index below its \<^verbatim>\<open>length\<close> is inside its array.\<close>

definition valid :: "'r regex_list_t \<Rightarrow> bool" where
  "valid prepared \<longleftrightarrow> length_r prepared \<le> length (elements (regexs prepared))"

definition valid_filter :: "'r bear_output_filter_t \<Rightarrow> bool" where
  "valid_filter f \<longleftrightarrow>
     valid (compilers f) \<and> valid (source_files f) \<and> valid (cancel_parameters f)"

subsection \<open>compile\<close>

text \<open>
  The loop of \<^verbatim>\<open>compile\<close> over the configuration array: \<^verbatim>\<open>regcomp\<close> on each
  element in order, \<^verbatim>\<open>exit\<close> at the first that fails.
\<close>

fun compile_elems :: "(string \<Rightarrow> 'r option) \<Rightarrow> string list \<Rightarrow> 'r list outcome" where
  "compile_elems regcomp [] = Returns []"
| "compile_elems regcomp (it # array) =
     (case regcomp it of
        None \<Rightarrow> Exit_failure
      | Some ot \<Rightarrow> and_then (compile_elems regcomp array) (\<lambda>ots. Returns (ot # ots)))"

text \<open>
  \<open>prepared\<close> is the object the second argument points to, as it is before the call. An
  empty array sets the length and returns before \<^verbatim>\<open>regexs\<close> is assigned. The result of
  \<^verbatim>\<open>malloc\<close> is not tested, so \<^verbatim>\<open>regcomp\<close> writes through a null pointer when the
  allocation fails.
\<close>

definition compile ::
  "(string \<Rightarrow> 'r option) \<Rightarrow> bool \<Rightarrow> string list \<Rightarrow> 'r regex_list_t \<Rightarrow> 'r regex_list_t outcome"
where
  "compile regcomp mem array prepared =
     (if 0 = length array then Returns (prepared\<lparr>length_r := 0\<rparr>)
      else if \<not> mem then Undefined_behaviour
      else and_then (compile_elems regcomp array)
             (\<lambda>ots. Returns (prepared\<lparr>length_r := length array, regexs := Regexs ots\<rparr>)))"

subsection \<open>match\<close>

function match_from :: "('r \<Rightarrow> string \<Rightarrow> int) \<Rightarrow> 'r regex_list_t \<Rightarrow> string \<Rightarrow> nat \<Rightarrow> int outcome"
where
  "match_from regexec prepared input idx =
     (if idx < length_r prepared then
        (case slot (regexs prepared) idx of
           None \<Rightarrow> Undefined_behaviour
         | Some ot \<Rightarrow>
             if 0 = regexec ot input then Returns 1
             else match_from regexec prepared input (Suc idx))
      else Returns 0)"
  by pat_completeness auto
termination
  by (relation "measure (\<lambda>(regexec, prepared, input, idx). length_r prepared - idx)") auto

definition match :: "('r \<Rightarrow> string \<Rightarrow> int) \<Rightarrow> 'r regex_list_t \<Rightarrow> string \<Rightarrow> int outcome" where
  "match regexec prepared input = match_from regexec prepared input 0"

subsection \<open>release\<close>

function release_from :: "'r regex_list_t \<Rightarrow> nat \<Rightarrow> 'r libc_call list" where
  "release_from prepared idx =
     (if idx < length_r prepared
      then Regfree (regexs prepared) idx # release_from prepared (Suc idx)
      else [])"
  by pat_completeness auto
termination
  by (relation "measure (\<lambda>(prepared, idx). length_r prepared - idx)") auto

definition release :: "'r regex_list_t \<Rightarrow> 'r libc_call list" where
  "release prepared = release_from prepared 0 @ [Free (regexs prepared)]"

subsection \<open>fix\_path\<close>

text \<open>
  \<^verbatim>\<open>strdup\<close>, \<^verbatim>\<open>asprintf\<close> with the format \<^verbatim>\<open>"%s/%s"\<close> and \<^verbatim>\<open>free\<close>, on the
  strings of the heap. An allocation that fails returns no string.
\<close>

definition strdup :: "bool \<Rightarrow> string \<Rightarrow> 'r memory \<Rightarrow> string option \<times> 'r memory" where
  "strdup mem s m = (if mem then (Some s, m\<lparr>strings := s # strings m\<rparr>) else (None, m))"

definition asprintf :: "bool \<Rightarrow> string \<Rightarrow> string \<Rightarrow> 'r memory \<Rightarrow> string option \<times> 'r memory" where
  "asprintf mem s1 s2 m =
     (if mem then (Some (s1 @ ''/'' @ s2), m\<lparr>strings := (s1 @ ''/'' @ s2) # strings m\<rparr>)
      else (None, m))"

definition free :: "string \<Rightarrow> 'r memory \<Rightarrow> 'r memory outcome" where
  "free p m =
     (if p \<in> set (strings m) then Returns (m\<lparr>strings := remove1 p (strings m)\<rparr>)
      else Undefined_behaviour)"

text \<open>\<^verbatim>\<open>file[0]\<close>: the first character, the terminating NUL for the empty string.\<close>

definition first_char :: "string \<Rightarrow> char" where
  "first_char file = (case file of [] \<Rightarrow> CHR 0x00 | c # _ \<Rightarrow> c)"

definition fix_path :: "bool \<Rightarrow> string \<Rightarrow> string \<Rightarrow> 'r memory \<Rightarrow> (string \<times> 'r memory) outcome" where
  "fix_path mem file dir m =
     (if CHR ''/'' = first_char file then
        (case strdup mem file m of
           (None, m') \<Rightarrow> Exit_failure
         | (Some result, m') \<Rightarrow> Returns (result, m'))
      else
        (case asprintf mem dir file m of
           (None, m') \<Rightarrow> Exit_failure
         | (Some result, m') \<Rightarrow> Returns (result, m')))"

subsection \<open>bear\_filter\_source\_file\<close>

text \<open>
  One iteration of the scan. \<open>result\<close> is the candidate (\<open>None\<close> for the null pointer),
  \<open>it\<close> the argument under the cursor. The source-file test is made only while there is
  no candidate (the \<^verbatim>\<open>&&\<close> does not evaluate its right operand otherwise); the cancel
  test is the \<^verbatim>\<open>else\<close> branch.
\<close>

datatype 'a iteration = Continue 'a | Break 'a

definition scan_body ::
  "('r \<Rightarrow> string \<Rightarrow> int) \<Rightarrow> bool \<Rightarrow> string \<Rightarrow> string \<Rightarrow> string option \<times> 'r memory \<Rightarrow>
     (string option \<times> 'r memory) iteration outcome"
where
  "scan_body regexec mem dir it st =
     (case st of (result, m) \<Rightarrow>
        and_then
          (if result = None then match regexec (source_files (the_filter m)) it
           else Returns 0)
          (\<lambda>is_source.
             if is_source \<noteq> 0 then
               and_then (fix_path mem it dir m) (\<lambda>(p, m'). Returns (Continue (Some p, m')))
             else
               and_then (match regexec (cancel_parameters (the_filter m)) it)
                 (\<lambda>is_cancel.
                    if is_cancel \<noteq> 0 then
                      (case result of
                         Some p \<Rightarrow> and_then (free p m) (\<lambda>m'. Returns (Break (None, m')))
                       | None \<Rightarrow> Returns (Break (None, m)))
                    else Returns (Continue (result, m)))))"

fun scan ::
  "('r \<Rightarrow> string \<Rightarrow> int) \<Rightarrow> bool \<Rightarrow> string \<Rightarrow> string list \<Rightarrow> string option \<times> 'r memory \<Rightarrow>
     (string option \<times> 'r memory) outcome"
where
  "scan regexec mem dir [] st = Returns st"
| "scan regexec mem dir (it # rest) st =
     (case scan_body regexec mem dir it st of
        Returns (Continue st') \<Rightarrow> scan regexec mem dir rest st'
      | Returns (Break st') \<Rightarrow> Returns st'
      | Exit_failure \<Rightarrow> Exit_failure
      | Undefined_behaviour \<Rightarrow> Undefined_behaviour)"

definition bear_filter_source_file ::
  "('r \<Rightarrow> string \<Rightarrow> int) \<Rightarrow> bool \<Rightarrow> 'r memory \<Rightarrow> bear_message_t \<Rightarrow>
     (string option \<times> 'r memory) outcome"
where
  "bear_filter_source_file regexec mem m e =
     (case cmd e of
        None \<Rightarrow> Returns (None, m)
      | Some [] \<Rightarrow> Returns (None, m)
      | Some (c0 # cs) \<Rightarrow>
          and_then (match regexec (compilers (the_filter m)) c0)
            (\<lambda>is_compiler.
               if is_compiler \<noteq> 0 then scan regexec mem (cwd e) (c0 # cs) (None, m)
               else Returns (None, m)))"


subsection \<open>A pattern library for the examples\<close>

text \<open>
  The theorems below hold for every \<open>regexec\<close>. Where a theorem is evaluated on an
  example, compiled patterns are the three forms below: the compiled form of \<^verbatim>\<open>^t$\<close>,
  of \<^verbatim>\<open>^t\<close> and of \<^verbatim>\<open>t$\<close> for a literal text \<open>t\<close>, with \<^verbatim>\<open>regexec\<close> returning
  \<open>0\<close> on a match and \<^verbatim>\<open>REG_NOMATCH\<close> (\<open>1\<close>) otherwise.
\<close>

datatype literal_regex = Whole string | Starts string | Ends string

fun literal_regexec :: "literal_regex \<Rightarrow> string \<Rightarrow> int" where
  "literal_regexec (Whole t) input = (if input = t then 0 else 1)"
| "literal_regexec (Starts t) input = (if prefix t input then 0 else 1)"
| "literal_regexec (Ends t) input = (if suffix t input then 0 else 1)"

text \<open>
  The filter of the specification's scenarios: compilers \<^verbatim>\<open>^gcc$\<close>, source files
  \<^verbatim>\<open>\.c$\<close>, cancel parameters \<^verbatim>\<open>^-E$\<close>.
\<close>

definition gcc_filter :: "literal_regex bear_output_filter_t" where
  "gcc_filter =
     \<lparr>compilers = \<lparr>length_r = 1, regexs = Regexs [Whole ''gcc'']\<rparr>,
      source_files = \<lparr>length_r = 1, regexs = Regexs [Ends ''.c'']\<rparr>,
      cancel_parameters = \<lparr>length_r = 1, regexs = Regexs [Whole ''-E'']\<rparr>\<rparr>"

text \<open>
  A filter with unanchored ends: compilers \<^verbatim>\<open>^cc\<close>, source files \<^verbatim>\<open>\.c$\<close>, cancel
  parameters \<^verbatim>\<open>^-M\<close>.
\<close>

definition cc_filter :: "literal_regex bear_output_filter_t" where
  "cc_filter =
     \<lparr>compilers = \<lparr>length_r = 1, regexs = Regexs [Starts ''cc'']\<rparr>,
      source_files = \<lparr>length_r = 1, regexs = Regexs [Ends ''.c'']\<rparr>,
      cancel_parameters = \<lparr>length_r = 1, regexs = Regexs [Starts ''-M'']\<rparr>\<rparr>"

section \<open>Properties of the translated functions\<close>

subsection \<open>Auxiliary facts\<close>

declare match_from.simps [simp del]
declare release_from.simps [simp del]

lemma match_from_valid:
  "valid prepared \<Longrightarrow>
   match_from regexec prepared input idx =
     Returns (if \<exists>r \<in> set (drop idx (patterns prepared)). regexec r input = 0 then 1 else 0)"
proof (induction regexec prepared input idx rule: match_from.induct)
  case (1 regexec prepared input idx)
  show ?case
  proof (cases "idx < length_r prepared")
    case False
    then show ?thesis
      by (subst match_from.simps) (simp add: patterns_def)
  next
    case True
    with "1.prems" obtain rs where rs: "regexs prepared = Regexs rs" and len: "idx < length rs"
      by (cases "regexs prepared") (auto simp: valid_def)
    have "idx < length (patterns prepared)" and "patterns prepared ! idx = rs ! idx"
      using True len rs by (simp_all add: patterns_def)
    then have d: "drop idx (patterns prepared) = rs ! idx # drop (Suc idx) (patterns prepared)"
      by (metis Cons_nth_drop_Suc)
    show ?thesis
    proof (cases "regexec (rs ! idx) input = 0")
      case True
      with \<open>idx < length_r prepared\<close> len rs d show ?thesis
        by (subst match_from.simps) simp
    next
      case False
      with \<open>idx < length_r prepared\<close> len rs d "1.IH"[of "rs ! idx"] "1.prems" show ?thesis
        by (subst match_from.simps) simp
    qed
  qed
qed

lemma match_valid:
  "valid prepared \<Longrightarrow>
   match regexec prepared input =
     Returns (if \<exists>r \<in> set (patterns prepared). regexec r input = 0 then 1 else 0)"
  by (simp add: match_def match_from_valid)

lemma match_from_range:
  "match_from regexec prepared input idx = Returns v \<Longrightarrow> v = 0 \<or> v = 1"
proof (induction regexec prepared input idx rule: match_from.induct)
  case (1 regexec prepared input idx)
  from "1.prems" show ?case
    by (subst (asm) match_from.simps) (auto split: if_splits option.splits dest: "1.IH")
qed

lemma match_range: "match regexec prepared input = Returns v \<Longrightarrow> v = 0 \<or> v = 1"
  unfolding match_def by (rule match_from_range)

lemma match_empty: "length_r prepared = 0 \<Longrightarrow> match regexec prepared input = Returns 0"
  unfolding match_def by (subst match_from.simps) simp

lemma fix_path_eq:
  "fix_path mem file dir m =
     (if mem then
        Returns (if CHR ''/'' = first_char file then file else dir @ ''/'' @ file,
                 m\<lparr>strings := (if CHR ''/'' = first_char file then file else dir @ ''/'' @ file)
                               # strings m\<rparr>)
      else Exit_failure)"
  by (simp add: fix_path_def strdup_def asprintf_def)

lemma fix_path_Returns:
  "fix_path mem file dir m = Returns (p, m') \<Longrightarrow>
     mem \<and> m' = m\<lparr>strings := p # strings m\<rparr> \<and> fix_path True file dir m = Returns (p, m')"
  by (auto simp: fix_path_eq split: if_splits)

lemma scan_body_candidate:
  "match regexec (source_files (the_filter m)) it = Returns 1 \<Longrightarrow>
   scan_body regexec mem dir it (None, m) =
     and_then (fix_path mem it dir m) (\<lambda>(p, m'). Returns (Continue (Some p, m')))"
  by (simp add: scan_body_def)

lemma scan_body_pass:
  "match regexec (source_files (the_filter m)) it = Returns 0 \<Longrightarrow>
   match regexec (cancel_parameters (the_filter m)) it = Returns 0 \<Longrightarrow>
   scan_body regexec mem dir it (None, m) = Returns (Continue (None, m))"
  by (simp add: scan_body_def)

lemma scan_body_cancel_none:
  "match regexec (source_files (the_filter m)) it = Returns 0 \<Longrightarrow>
   match regexec (cancel_parameters (the_filter m)) it = Returns 1 \<Longrightarrow>
   scan_body regexec mem dir it (None, m) = Returns (Break (None, m))"
  by (simp add: scan_body_def)

lemma scan_body_keep:
  "match regexec (cancel_parameters (the_filter m)) it = Returns 0 \<Longrightarrow>
   scan_body regexec mem dir it (Some p, m) = Returns (Continue (Some p, m))"
  by (simp add: scan_body_def)

lemma scan_body_cancel_some:
  "match regexec (cancel_parameters (the_filter m)) it = Returns 1 \<Longrightarrow>
   p \<in> set (strings m) \<Longrightarrow>
   scan_body regexec mem dir it (Some p, m) =
     Returns (Break (None, m\<lparr>strings := remove1 p (strings m)\<rparr>))"
  by (simp add: scan_body_def free_def)

lemma scan_skip:
  "\<forall>a \<in> set pre. match regexec (source_files (the_filter m)) a = Returns 0 \<and>
                    match regexec (cancel_parameters (the_filter m)) a = Returns 0 \<Longrightarrow>
   scan regexec mem dir (pre @ rest) (None, m) = scan regexec mem dir rest (None, m)"
  by (induction pre) (simp_all add: scan_body_pass)

lemma scan_take:
  "match regexec (source_files (the_filter m)) a = Returns 1 \<Longrightarrow>
   scan regexec True dir (a # rest) (None, m) =
     scan regexec True dir rest
       (Some (if CHR ''/'' = first_char a then a else dir @ ''/'' @ a),
        m\<lparr>strings := (if CHR ''/'' = first_char a then a else dir @ ''/'' @ a) # strings m\<rparr>)"
  by (simp add: scan_body_candidate fix_path_eq)

lemma scan_keep:
  "\<forall>a \<in> set rest. match regexec (cancel_parameters (the_filter m)) a = Returns 0 \<Longrightarrow>
   scan regexec mem dir rest (Some p, m) = Returns (Some p, m)"
  by (induction rest) (simp_all add: scan_body_keep)

lemma match_valid_cases:
  "valid prepared \<Longrightarrow>
   match regexec prepared input = Returns 0 \<or> match regexec prepared input = Returns 1"
  by (simp add: match_valid)

lemma scan_cancel_candidate:
  "valid (cancel_parameters (the_filter m)) \<Longrightarrow>
   match regexec (cancel_parameters (the_filter m)) c = Returns 1 \<Longrightarrow>
   p \<in> set (strings m) \<Longrightarrow>
   scan regexec mem dir (pre @ c # post) (Some p, m) =
     Returns (None, m\<lparr>strings := remove1 p (strings m)\<rparr>)"
proof (induction pre)
  case Nil
  then show ?case by (simp add: scan_body_cancel_some)
next
  case (Cons a pre)
  from Cons.prems(1) consider
      "match regexec (cancel_parameters (the_filter m)) a = Returns 0"
    | "match regexec (cancel_parameters (the_filter m)) a = Returns 1"
    using match_valid_cases by blast
  then show ?case
  proof cases
    case 1
    with Cons show ?thesis by (simp add: scan_body_keep)
  next
    case 2
    with Cons.prems show ?thesis by (simp add: scan_body_cancel_some)
  qed
qed

lemma scan_cancel:
  "valid (source_files (the_filter m)) \<Longrightarrow>
   valid (cancel_parameters (the_filter m)) \<Longrightarrow>
   match regexec (cancel_parameters (the_filter m)) c = Returns 1 \<Longrightarrow>
   (\<exists>a \<in> set pre. match regexec (source_files (the_filter m)) a = Returns 1) \<or>
     match regexec (source_files (the_filter m)) c = Returns 0 \<Longrightarrow>
   scan regexec True dir (pre @ c # post) (None, m) = Returns (None, m)"
proof (induction pre)
  case Nil
  then show ?case by (simp add: scan_body_cancel_none)
next
  case (Cons a pre)
  from Cons.prems(1) consider
      (src) "match regexec (source_files (the_filter m)) a = Returns 1"
    | (nosrc) "match regexec (source_files (the_filter m)) a = Returns 0"
    using match_valid_cases by blast
  then show ?case
  proof cases
    case src
    let ?p = "if CHR ''/'' = first_char a then a else dir @ ''/'' @ a"
    let ?m = "m\<lparr>strings := ?p # strings m\<rparr>"
    have "scan regexec True dir ((a # pre) @ c # post) (None, m) =
          scan regexec True dir (pre @ c # post) (Some ?p, ?m)"
      using src scan_take[of regexec m a dir "pre @ c # post"] by simp
    also have "\<dots> = Returns (None, ?m\<lparr>strings := remove1 ?p (strings ?m)\<rparr>)"
      using Cons.prems by (intro scan_cancel_candidate) simp_all
    also have "?m\<lparr>strings := remove1 ?p (strings ?m)\<rparr> = m" by simp
    finally show ?thesis .
  next
    case nosrc
    from Cons.prems(2) consider
        "match regexec (cancel_parameters (the_filter m)) a = Returns 0"
      | "match regexec (cancel_parameters (the_filter m)) a = Returns 1"
      using match_valid_cases by blast
    then show ?thesis
    proof cases
      case 1
      with nosrc Cons show ?thesis by (auto simp: scan_body_pass)
    next
      case 2
      with nosrc show ?thesis by (simp add: scan_body_cancel_none)
    qed
  qed
qed

lemma and_then_Returns:
  "and_then x k = Returns y \<longleftrightarrow> (\<exists>v. x = Returns v \<and> k v = Returns y)"
  by (cases x) simp_all

lemma scan_body_Some_cases:
  assumes "scan_body regexec mem dir it (Some p, m) = Returns r"
  shows "(match regexec (cancel_parameters (the_filter m)) it = Returns 0 \<and>
            r = Continue (Some p, m)) \<or>
         (match regexec (cancel_parameters (the_filter m)) it = Returns 1 \<and>
            p \<in> set (strings m) \<and> r = Break (None, m\<lparr>strings := remove1 p (strings m)\<rparr>))"
proof (cases "match regexec (cancel_parameters (the_filter m)) it")
  case (Returns v)
  then have "v = 0 \<or> v = 1" by (rule match_range)
  with assms Returns show ?thesis
    by (auto simp: scan_body_def free_def split: if_splits)
next
  case Exit_failure
  with assms show ?thesis by (simp add: scan_body_def)
next
  case Undefined_behaviour
  with assms show ?thesis by (simp add: scan_body_def)
qed

lemma scan_body_None_cases:
  assumes "scan_body regexec mem dir it (None, m) = Returns r"
  shows "(match regexec (source_files (the_filter m)) it = Returns 1 \<and>
            (\<exists>p m'. fix_path mem it dir m = Returns (p, m') \<and> r = Continue (Some p, m'))) \<or>
         (match regexec (source_files (the_filter m)) it = Returns 0 \<and>
            match regexec (cancel_parameters (the_filter m)) it = Returns 0 \<and>
            r = Continue (None, m)) \<or>
         (match regexec (source_files (the_filter m)) it = Returns 0 \<and>
            match regexec (cancel_parameters (the_filter m)) it = Returns 1 \<and>
            r = Break (None, m))"
proof (cases "match regexec (source_files (the_filter m)) it")
  case src: (Returns s)
  then have "s = 0 \<or> s = 1" by (rule match_range)
  then show ?thesis
  proof
    assume "s = 1"
    with assms src show ?thesis
      by (cases "fix_path mem it dir m") (auto simp: scan_body_def)
  next
    assume s0: "s = 0"
    show ?thesis
    proof (cases "match regexec (cancel_parameters (the_filter m)) it")
      case (Returns c)
      then have "c = 0 \<or> c = 1" by (rule match_range)
      with assms src s0 Returns show ?thesis
        by (auto simp: scan_body_def split: if_splits)
    next
      case Exit_failure
      with assms src s0 show ?thesis by (simp add: scan_body_def)
    next
      case Undefined_behaviour
      with assms src s0 show ?thesis by (simp add: scan_body_def)
    qed
  qed
next
  case Exit_failure
  with assms show ?thesis by (simp add: scan_body_def)
next
  case Undefined_behaviour
  with assms show ?thesis by (simp add: scan_body_def)
qed

lemma scan_Some_inv:
  "scan regexec mem dir args (Some p, m) = Returns (Some q, m') \<Longrightarrow>
   q = p \<and> m' = m \<and>
   (\<forall>a \<in> set args. match regexec (cancel_parameters (the_filter m)) a = Returns 0)"
proof (induction args)
  case Nil
  then show ?case by simp
next
  case (Cons a args)
  from Cons.prems obtain r where r: "scan_body regexec mem dir a (Some p, m) = Returns r"
    by (auto split: outcome.splits)
  from scan_body_Some_cases[OF r] Cons.prems r Cons.IH show ?case
    by auto
qed

lemma scan_None_inv:
  "scan regexec mem dir args (None, m) = Returns (Some q, m') \<Longrightarrow>
   \<exists>pre a post. args = pre @ a # post \<and>
     (\<forall>x \<in> set pre. match regexec (source_files (the_filter m)) x = Returns 0 \<and>
                      match regexec (cancel_parameters (the_filter m)) x = Returns 0) \<and>
     match regexec (source_files (the_filter m)) a = Returns 1 \<and>
     fix_path mem a dir m = Returns (q, m') \<and>
     (\<forall>x \<in> set post. match regexec (cancel_parameters (the_filter m)) x = Returns 0)"
proof (induction args)
  case Nil
  then show ?case by simp
next
  case (Cons a args)
  from Cons.prems obtain r where r: "scan_body regexec mem dir a (None, m) = Returns r"
    by (auto split: outcome.splits)
  from scan_body_None_cases[OF r] show ?case
  proof (elim disjE conjE exE)
    fix p m1
    assume src: "match regexec (source_files (the_filter m)) a = Returns 1"
      and fp: "fix_path mem a dir m = Returns (p, m1)" and rr: "r = Continue (Some p, m1)"
    from Cons.prems r rr have "scan regexec mem dir args (Some p, m1) = Returns (Some q, m')"
      by simp
    from scan_Some_inv[OF this] fix_path_Returns[OF fp]
    have "q = p" "m' = m1"
      "\<forall>x \<in> set args. match regexec (cancel_parameters (the_filter m)) x = Returns 0"
      by simp_all
    with src fp show ?thesis
      by (intro exI[of _ "[]"] exI[of _ a] exI[of _ args]) simp
  next
    assume s0: "match regexec (source_files (the_filter m)) a = Returns 0"
      and c0: "match regexec (cancel_parameters (the_filter m)) a = Returns 0"
      and rr: "r = Continue (None, m)"
    from Cons.prems r rr have "scan regexec mem dir args (None, m) = Returns (Some q, m')"
      by simp
    from Cons.IH[OF this] obtain pre b post where
      "args = pre @ b # post"
      "\<forall>x \<in> set pre. match regexec (source_files (the_filter m)) x = Returns 0 \<and>
                      match regexec (cancel_parameters (the_filter m)) x = Returns 0"
      "match regexec (source_files (the_filter m)) b = Returns 1"
      "fix_path mem b dir m = Returns (q, m')"
      "\<forall>x \<in> set post. match regexec (cancel_parameters (the_filter m)) x = Returns 0"
      by blast
    with s0 c0 show ?thesis
      by (intro exI[of _ "a # pre"] exI[of _ b] exI[of _ post]) simp
  next
    assume "r = Break (None, m)"
    with Cons.prems r show ?thesis by simp
  qed
qed

lemma scan_body_filter:
  assumes "scan_body regexec mem dir it (result, m) = Returns r"
  shows "case r of Continue (result', m') \<Rightarrow> the_filter m' = the_filter m
                 | Break (result', m') \<Rightarrow> the_filter m' = the_filter m"
proof (cases result)
  case None
  with assms scan_body_None_cases[of regexec mem dir it m r] show ?thesis
    by (auto dest: fix_path_Returns)
next
  case (Some p)
  with assms scan_body_Some_cases[of regexec mem dir it p m r] show ?thesis
    by auto
qed

lemma scan_filter:
  "scan regexec mem dir args (result, m) = Returns (result', m') \<Longrightarrow>
   the_filter m' = the_filter m"
proof (induction args arbitrary: result m)
  case Nil
  then show ?case by simp
next
  case (Cons a args)
  from Cons.prems obtain r where r: "scan_body regexec mem dir a (result, m) = Returns r"
    by (auto split: outcome.splits)
  show ?case
  proof (cases r)
    case (Continue st)
    obtain r1 m1 where st: "st = (r1, m1)" by (cases st)
    from scan_body_filter[OF r] Continue st have "the_filter m1 = the_filter m" by simp
    moreover from Cons.prems r Continue st
    have "scan regexec mem dir args (r1, m1) = Returns (result', m')" by simp
    ultimately show ?thesis using Cons.IH by metis
  next
    case (Break st)
    obtain r1 m1 where st: "st = (r1, m1)" by (cases st)
    from scan_body_filter[OF r] Break st have "the_filter m1 = the_filter m" by simp
    moreover from Cons.prems r Break st have "m' = m1" by simp
    ultimately show ?thesis by simp
  qed
qed

lemma fix_path_path:
  "fix_path mem a dir m = Returns (p, m1) \<Longrightarrow> fix_path mem' a dir m' = Returns (p', m2) \<Longrightarrow> p' = p"
  by (auto simp: fix_path_eq split: if_splits)

lemma scan_agree:
  "scan regexec mem dir args (r, m) = Returns (v1, m1) \<Longrightarrow>
   scan regexec mem' dir args (r, m') = Returns (v2, m2) \<Longrightarrow>
   the_filter m' = the_filter m \<Longrightarrow> v2 = v1"
proof (induction args arbitrary: r m m')
  case Nil
  then show ?case by simp
next
  case (Cons a args)
  from Cons.prems(1) obtain b1 where b1: "scan_body regexec mem dir a (r, m) = Returns b1"
    by (auto split: outcome.splits)
  from Cons.prems(2) obtain b2 where b2: "scan_body regexec mem' dir a (r, m') = Returns b2"
    by (auto split: outcome.splits)
  note same = \<open>the_filter m' = the_filter m\<close>
  show ?case
  proof (cases r)
    case None
    from scan_body_None_cases[OF b1[unfolded None]] scan_body_None_cases[OF b2[unfolded None]]
    consider
      (cand) p n1 n2 where "b1 = Continue (Some p, n1)" "b2 = Continue (Some p, n2)"
        "the_filter n2 = the_filter n1"
    | (pass) "b1 = Continue (None, m)" "b2 = Continue (None, m')"
    | (stop) "b1 = Break (None, m)" "b2 = Break (None, m')"
      using same by (auto simp: fix_path_eq split: if_splits)
    then show ?thesis
    proof cases
      case cand
      with Cons.prems b1 b2 Cons.IH[of "Some p" n1 n2] show ?thesis by simp
    next
      case pass
      with Cons.prems b1 b2 Cons.IH[of None m m'] None show ?thesis by simp
    next
      case stop
      with Cons.prems b1 b2 show ?thesis by simp
    qed
  next
    case (Some p)
    from scan_body_Some_cases[OF b1[unfolded Some]] scan_body_Some_cases[OF b2[unfolded Some]]
    consider
      (keep) "b1 = Continue (Some p, m)" "b2 = Continue (Some p, m')"
    | (stop) n1 n2 where "b1 = Break (None, n1)" "b2 = Break (None, n2)"
      using same by auto
    then show ?thesis
    proof cases
      case keep
      with Cons.prems b1 b2 Cons.IH[of "Some p" m m'] Some show ?thesis by simp
    next
      case stop
      with Cons.prems b1 b2 show ?thesis by simp
    qed
  qed
qed

lemma scan_rerun:
  "scan regexec mem dir args (r, m) = Returns (v, m1) \<Longrightarrow>
   the_filter m' = the_filter m \<Longrightarrow>
   (\<forall>p. r = Some p \<longrightarrow> p \<in> set (strings m')) \<Longrightarrow>
   \<exists>m2. scan regexec True dir args (r, m') = Returns (v, m2)"
proof (induction args arbitrary: r m m')
  case Nil
  then show ?case by simp
next
  case (Cons a args)
  from Cons.prems(1) obtain b1 where b1: "scan_body regexec mem dir a (r, m) = Returns b1"
    by (auto split: outcome.splits)
  note same = \<open>the_filter m' = the_filter m\<close>
  show ?case
  proof (cases r)
    case None
    from scan_body_None_cases[OF b1[unfolded None]]
    consider
      (cand) p n1 where "match regexec (source_files (the_filter m)) a = Returns 1"
        "fix_path mem a dir m = Returns (p, n1)" "b1 = Continue (Some p, n1)"
    | (pass) "match regexec (source_files (the_filter m)) a = Returns 0"
        "match regexec (cancel_parameters (the_filter m)) a = Returns 0" "b1 = Continue (None, m)"
    | (stop) "match regexec (source_files (the_filter m)) a = Returns 0"
        "match regexec (cancel_parameters (the_filter m)) a = Returns 1" "b1 = Break (None, m)"
      by blast
    then show ?thesis
    proof cases
      case cand
      let ?n2 = "m'\<lparr>strings := p # strings m'\<rparr>"
      from cand(2) have fp: "fix_path True a dir m' = Returns (p, ?n2)"
        by (auto simp: fix_path_eq split: if_splits)
      from cand(2) have "the_filter n1 = the_filter m" by (auto dest: fix_path_Returns)
      with same have "the_filter ?n2 = the_filter n1" by simp
      moreover from Cons.prems(1) b1 cand(3)
      have "scan regexec mem dir args (Some p, n1) = Returns (v, m1)" by simp
      ultimately obtain m2 where "scan regexec True dir args (Some p, ?n2) = Returns (v, m2)"
        using Cons.IH[of "Some p" n1 ?n2] by auto
      moreover have "scan_body regexec True dir a (None, m') = Returns (Continue (Some p, ?n2))"
        using cand(1) same fp by (simp add: scan_body_candidate)
      ultimately show ?thesis using None by simp
    next
      case pass
      from Cons.prems(1) b1 pass(3) None
      have "scan regexec mem dir args (None, m) = Returns (v, m1)" by simp
      then obtain m2 where "scan regexec True dir args (None, m') = Returns (v, m2)"
        using Cons.IH[of None m m'] same by auto
      moreover have "scan_body regexec True dir a (None, m') = Returns (Continue (None, m'))"
        using pass same by (simp add: scan_body_pass)
      ultimately show ?thesis using None by simp
    next
      case stop
      from Cons.prems(1) b1 stop(3) have "v = None" by simp
      moreover have "scan_body regexec True dir a (None, m') = Returns (Break (None, m'))"
        using stop same by (simp add: scan_body_cancel_none)
      ultimately show ?thesis using None by simp
    qed
  next
    case (Some p)
    with Cons.prems(3) have p: "p \<in> set (strings m')" by simp
    from scan_body_Some_cases[OF b1[unfolded Some]]
    consider
      (keep) "match regexec (cancel_parameters (the_filter m)) a = Returns 0"
        "b1 = Continue (Some p, m)"
    | (stop) n1 where "match regexec (cancel_parameters (the_filter m)) a = Returns 1"
        "b1 = Break (None, n1)"
      by blast
    then show ?thesis
    proof cases
      case keep
      from Cons.prems(1) b1 keep(2) Some
      have "scan regexec mem dir args (Some p, m) = Returns (v, m1)" by simp
      then obtain m2 where "scan regexec True dir args (Some p, m') = Returns (v, m2)"
        using Cons.IH[of "Some p" m m'] same p by auto
      moreover have "scan_body regexec True dir a (Some p, m') = Returns (Continue (Some p, m'))"
        using keep same by (simp add: scan_body_keep)
      ultimately show ?thesis using Some by simp
    next
      case stop
      from Cons.prems(1) b1 stop(2) have "v = None" by simp
      moreover have "scan_body regexec True dir a (Some p, m') =
          Returns (Break (None, m'\<lparr>strings := remove1 p (strings m')\<rparr>))"
        using stop same p by (simp add: scan_body_cancel_some)
      ultimately show ?thesis using Some by simp
    qed
  qed
qed

lemma classify_cases:
  assumes "bear_filter_source_file regexec mem m e = Returns (v, m1)"
  shows "(v = None \<and> m1 = m \<and>
            (cmd e = None \<or> cmd e = Some [] \<or>
             (\<exists>c0 cs. cmd e = Some (c0 # cs) \<and>
                match regexec (compilers (the_filter m)) c0 = Returns 0))) \<or>
         (\<exists>c0 cs. cmd e = Some (c0 # cs) \<and>
            match regexec (compilers (the_filter m)) c0 = Returns 1 \<and>
            scan regexec mem (cwd e) (c0 # cs) (None, m) = Returns (v, m1))"
proof (cases "cmd e")
  case None
  with assms show ?thesis by (simp add: bear_filter_source_file_def)
next
  case (Some args)
  show ?thesis
  proof (cases args)
    case Nil
    with Some assms show ?thesis by (simp add: bear_filter_source_file_def)
  next
    case (Cons c0 cs)
    with Some assms obtain k where k: "match regexec (compilers (the_filter m)) c0 = Returns k"
      and r: "(if k \<noteq> 0 then scan regexec mem (cwd e) (c0 # cs) (None, m) else Returns (None, m))
                = Returns (v, m1)"
      by (auto simp: bear_filter_source_file_def and_then_Returns)
    from k have "k = 0 \<or> k = 1" by (rule match_range)
    with k r Some Cons show ?thesis by (auto split: if_splits)
  qed
qed

lemma classify_filter:
  assumes "bear_filter_source_file regexec mem m e = Returns (v, m1)"
  shows "the_filter m1 = the_filter m"
  using classify_cases[OF assms]
proof (elim disjE conjE exE)
  fix c0 cs
  assume "scan regexec mem (cwd e) (c0 # cs) (None, m) = Returns (v, m1)"
  then show ?thesis by (rule scan_filter)
qed simp_all

lemma release_from_calls:
  "release_from prepared idx = map (Regfree (regexs prepared)) [idx ..< length_r prepared]"
proof (induction prepared idx rule: release_from.induct)
  case (1 prepared idx)
  then show ?case
    by (subst release_from.simps) (simp add: upt_conv_Cons)
qed

lemma release_calls:
  "release prepared =
     map (Regfree (regexs prepared)) [0 ..< length_r prepared] @ [Free (regexs prepared)]"
  by (simp add: release_def release_from_calls)

lemma compile_elems_length:
  "compile_elems regcomp array = Returns ots \<Longrightarrow> length ots = length array"
  by (induction array arbitrary: ots) (auto split: option.splits simp: and_then_Returns)

lemma compile_valid:
  "compile regcomp mem array prepared = Returns prepared' \<Longrightarrow> valid prepared'"
  by (auto simp: compile_def valid_def and_then_Returns split: if_splits
           dest: compile_elems_length)

text \<open>The unfolding rules that evaluate the translated functions on an example.\<close>

lemmas example_simps =
  match_def match_from.simps bear_filter_source_file_def
  scan_body_def fix_path_def strdup_def asprintf_def free_def first_char_def
  valid_def valid_filter_def patterns_def suffix_to_prefix

text \<open>Two scenarios of the specification, evaluated.\<close>

lemma gcc_scenario:
  "bear_filter_source_file literal_regexec True \<lparr>the_filter = gcc_filter, strings = []\<rparr>
     \<lparr>cmd = Some [''gcc'', ''-c'', ''foo.c''], cwd = ''/home/u''\<rparr> =
   Returns (Some ''/home/u/foo.c'',
     \<lparr>the_filter = gcc_filter, strings = [''/home/u/foo.c'']\<rparr>)"
  by (simp add: example_simps gcc_filter_def)

lemma gcc_cancel_scenario:
  "bear_filter_source_file literal_regexec True \<lparr>the_filter = gcc_filter, strings = []\<rparr>
     \<lparr>cmd = Some [''gcc'', ''foo.c'', ''-E''], cwd = ''/home/u''\<rparr> =
   Returns (None, \<lparr>the_filter = gcc_filter, strings = []\<rparr>)"
  by (simp add: example_simps gcc_filter_def)

subsection \<open>match\<close>

text \<open>
  Claim C5. For every pattern set and every input string, \<open>match\<close> returns true (\<open>1\<close>) if
  and only if \<^verbatim>\<open>regexec\<close> reports a match of at least one pattern of the set on the
  input, and false (\<open>0\<close>) otherwise; for the empty pattern set it returns false for every
  input. The input is handed to \<^verbatim>\<open>regexec\<close> as it is, without any anchoring added by
  \<open>match\<close>: where in the input a pattern matches is decided by \<^verbatim>\<open>regexec\<close> alone.
  The pattern sets are the valid ones; \<open>compile\<close> returns no other (\<open>compile_valid\<close>).
\<close>

theorem match_iff_some_pattern_matches:
  assumes "valid prepared"
  shows "(match regexec prepared input = Returns 1 \<longleftrightarrow>
            (\<exists>ot \<in> set (patterns prepared). regexec ot input = 0)) \<and>
         (match regexec prepared input = Returns 0 \<longleftrightarrow>
            \<not> (\<exists>ot \<in> set (patterns prepared). regexec ot input = 0)) \<and>
         (length_r prepared = 0 \<longrightarrow> match regexec prepared input = Returns 0)"
proof (intro conjI impI)
  show "match regexec prepared input = Returns 1 \<longleftrightarrow>
          (\<exists>ot \<in> set (patterns prepared). regexec ot input = 0)"
    using assms by (simp add: match_valid)
  show "match regexec prepared input = Returns 0 \<longleftrightarrow>
          \<not> (\<exists>ot \<in> set (patterns prepared). regexec ot input = 0)"
    using assms by (simp add: match_valid)
  show "match regexec prepared input = Returns 0" if "length_r prepared = 0"
    using that by (rule match_empty)
qed

theorem match_iff_some_pattern_matches_witness:
  "valid \<lparr>length_r = 2, regexs = Regexs [Whole ''gcc'', Ends ''.c'']\<rparr> \<and>
   match literal_regexec \<lparr>length_r = 2, regexs = Regexs [Whole ''gcc'', Ends ''.c'']\<rparr> ''foo.c''
     = Returns 1 \<and>
   match literal_regexec \<lparr>length_r = 2, regexs = Regexs [Whole ''gcc'', Ends ''.c'']\<rparr> ''foo.o''
     = Returns 0 \<and>
   match literal_regexec \<lparr>length_r = 0, regexs = Indeterminate\<rparr> ''foo.c'' = Returns 0"
proof -
  let ?set = "\<lparr>length_r = 2, regexs = Regexs [Whole ''gcc'', Ends ''.c'']\<rparr>"
  let ?empty = "\<lparr>length_r = 0, regexs = (Indeterminate :: literal_regex regex_array)\<rparr>"
  have v: "valid ?set" and v0: "valid ?empty"
    by (simp_all add: valid_def)
  have p: "patterns ?set = [Whole ''gcc'', Ends ''.c'']"
    by (simp add: patterns_def)
  from match_iff_some_pattern_matches[OF v, of literal_regexec "''foo.c''"] p
  have 1: "match literal_regexec ?set ''foo.c'' = Returns 1"
    by (simp add: suffix_to_prefix)
  from match_iff_some_pattern_matches[OF v, of literal_regexec "''foo.o''"] p
  have 2: "match literal_regexec ?set ''foo.o'' = Returns 0"
    by (simp add: suffix_to_prefix)
  from match_iff_some_pattern_matches[OF v0, of literal_regexec "''foo.c''"]
  have 3: "match literal_regexec ?empty ''foo.c'' = Returns 0"
    by simp
  from v 1 2 3 show ?thesis by simp
qed

subsection \<open>fix\_path\<close>

text \<open>
  Claim C6. For every file string and working-directory string, \<open>fix_path\<close> returns a
  copy of the file, unchanged, when the first character of the file is \<open>/\<close>, and otherwise
  the concatenation of the working directory, a \<open>/\<close> and the file. The returned string is
  a new string of the heap. The only other outcome is the exit of the process when the
  allocation fails.
\<close>

theorem fix_path_resolves:
  "fix_path mem file dir m =
     (if mem then
        Returns (if \<exists>rest. file = CHR ''/'' # rest then file else dir @ ''/'' @ file,
                 m\<lparr>strings := (if \<exists>rest. file = CHR ''/'' # rest then file
                                else dir @ ''/'' @ file) # strings m\<rparr>)
      else Exit_failure)"
proof -
  have "(CHR ''/'' = first_char file) = (\<exists>rest. file = CHR ''/'' # rest)"
    by (cases "file") (auto simp: first_char_def)
  then show ?thesis by (simp add: fix_path_eq)
qed

theorem fix_path_resolves_witness:
  "fix_path True ''/a/b.c'' ''/x/y'' \<lparr>the_filter = gcc_filter, strings = []\<rparr> =
     Returns (''/a/b.c'', \<lparr>the_filter = gcc_filter, strings = [''/a/b.c'']\<rparr>) \<and>
   fix_path True ''b.c'' ''/x/y'' \<lparr>the_filter = gcc_filter, strings = []\<rparr> =
     Returns (''/x/y/b.c'', \<lparr>the_filter = gcc_filter, strings = [''/x/y/b.c'']\<rparr>) \<and>
   fix_path False ''b.c'' ''/x/y'' \<lparr>the_filter = gcc_filter, strings = []\<rparr> = Exit_failure"
  using fix_path_resolves[of True "''/a/b.c''" "''/x/y''" "\<lparr>the_filter = gcc_filter, strings = []\<rparr>"]
    fix_path_resolves[of True "''b.c''" "''/x/y''" "\<lparr>the_filter = gcc_filter, strings = []\<rparr>"]
    fix_path_resolves[of False "''b.c''" "''/x/y''" "\<lparr>the_filter = gcc_filter, strings = []\<rparr>"]
  by simp

subsection \<open>release\<close>

text \<open>
  \<open>release_calls\<close> above lists what \<open>release\<close> does: one \<^verbatim>\<open>regfree\<close> for each index
  below the length, each index once, then one \<^verbatim>\<open>free\<close> of the \<^verbatim>\<open>regexs\<close> member,
  whatever the length is.

  Claim C7 (destroying a pattern set releases every compiled pattern exactly once, and
  destroying an empty pattern set performs no release operation at all). The second half
  does not hold of the code. For an empty configuration array \<open>compile\<close> sets the length
  to \<open>0\<close> and returns before \<^verbatim>\<open>regexs\<close> is assigned; \<open>release\<close> of that set makes no
  \<^verbatim>\<open>regfree\<close> call and then calls \<^verbatim>\<open>free\<close> on the member that was never assigned.
\<close>

theorem release_of_empty_set_calls_free:
  "compile regcomp mem [] \<lparr>length_r = n, regexs = Indeterminate\<rparr> =
     Returns \<lparr>length_r = 0, regexs = Indeterminate\<rparr> \<and>
   release \<lparr>length_r = 0, regexs = Indeterminate\<rparr> = [Free Indeterminate]"
  by (simp add: compile_def release_def release_from.simps)

subsection \<open>One iteration of the scan\<close>

text \<open>
  Claim C4. Within one iteration of the scan the candidate-setting branch and the
  cancellation branch exclude each other.
  \<^item> While there is no candidate, an argument that matches the source-file set becomes
    the candidate and the scan continues, whatever the cancel set \<open>cp\<close> is: the cancel test
    is not made for this argument, also when the argument matches the cancel set.
  \<^item> Once there is a candidate, the source-file set \<open>sf\<close> is not consulted: the cancel
    test alone decides between keeping the candidate and continuing, and freeing the
    candidate and leaving the loop.
\<close>

theorem scan_body_branches_exclusive:
  "(match regexec (source_files (the_filter m)) it = Returns 1 \<longrightarrow>
      (\<forall>cp. \<exists>path m'.
         fix_path True it dir (m\<lparr>the_filter := (the_filter m)\<lparr>cancel_parameters := cp\<rparr>\<rparr>) =
           Returns (path, m') \<and>
         scan_body regexec True dir it
           (None, m\<lparr>the_filter := (the_filter m)\<lparr>cancel_parameters := cp\<rparr>\<rparr>) =
           Returns (Continue (Some path, m')))) \<and>
   (match regexec (cancel_parameters (the_filter m)) it = Returns 0 \<longrightarrow>
      (\<forall>sf. scan_body regexec mem dir it
           (Some p, m\<lparr>the_filter := (the_filter m)\<lparr>source_files := sf\<rparr>\<rparr>) =
           Returns (Continue (Some p, m\<lparr>the_filter := (the_filter m)\<lparr>source_files := sf\<rparr>\<rparr>)))) \<and>
   (match regexec (cancel_parameters (the_filter m)) it = Returns 1 \<longrightarrow> p \<in> set (strings m) \<longrightarrow>
      (\<forall>sf. scan_body regexec mem dir it
           (Some p, m\<lparr>the_filter := (the_filter m)\<lparr>source_files := sf\<rparr>\<rparr>) =
           Returns (Break (None, m\<lparr>the_filter := (the_filter m)\<lparr>source_files := sf\<rparr>,
                                   strings := remove1 p (strings m)\<rparr>))))"
  by (simp add: scan_body_def fix_path_eq free_def)

theorem scan_body_branches_exclusive_witness:
  "match literal_regexec (source_files cc_filter) ''-MTmain.c'' = Returns 1 \<and>
   match literal_regexec (cancel_parameters cc_filter) ''-MTmain.c'' = Returns 1 \<and>
   scan_body literal_regexec True ''/home/u'' ''-MTmain.c''
     (None, \<lparr>the_filter = cc_filter, strings = []\<rparr>) =
     Returns (Continue (Some ''/home/u/-MTmain.c'',
       \<lparr>the_filter = cc_filter, strings = [''/home/u/-MTmain.c'']\<rparr>)) \<and>
   match literal_regexec (source_files cc_filter) ''bar.c'' = Returns 1 \<and>
   match literal_regexec (cancel_parameters cc_filter) ''bar.c'' = Returns 0 \<and>
   scan_body literal_regexec True ''/home/u'' ''bar.c''
     (Some ''/home/u/foo.c'', \<lparr>the_filter = cc_filter, strings = [''/home/u/foo.c'']\<rparr>) =
     Returns (Continue (Some ''/home/u/foo.c'',
       \<lparr>the_filter = cc_filter, strings = [''/home/u/foo.c'']\<rparr>)) \<and>
   match literal_regexec (cancel_parameters cc_filter) ''-MD'' = Returns 1 \<and>
   scan_body literal_regexec True ''/home/u'' ''-MD''
     (Some ''/home/u/foo.c'', \<lparr>the_filter = cc_filter, strings = [''/home/u/foo.c'']\<rparr>) =
     Returns (Break (None, \<lparr>the_filter = cc_filter, strings = []\<rparr>))"
proof -
  let ?m0 = "\<lparr>the_filter = cc_filter, strings = []\<rparr>"
  let ?m1 = "\<lparr>the_filter = cc_filter, strings = [''/home/u/foo.c'']\<rparr>"
  have s1: "match literal_regexec (source_files cc_filter) ''-MTmain.c'' = Returns 1"
    and c1: "match literal_regexec (cancel_parameters cc_filter) ''-MTmain.c'' = Returns 1"
    and s2: "match literal_regexec (source_files cc_filter) ''bar.c'' = Returns 1"
    and c2: "match literal_regexec (cancel_parameters cc_filter) ''bar.c'' = Returns 0"
    and c3: "match literal_regexec (cancel_parameters cc_filter) ''-MD'' = Returns 1"
    by (simp_all add: example_simps cc_filter_def)
  have u0: "?m0\<lparr>the_filter := (the_filter ?m0)\<lparr>cancel_parameters := cancel_parameters cc_filter\<rparr>\<rparr> = ?m0"
    and u1: "?m1\<lparr>the_filter := (the_filter ?m1)\<lparr>source_files := source_files cc_filter\<rparr>\<rparr> = ?m1"
    by simp_all
  have p: "''/home/u/foo.c'' \<in> set (strings ?m1)" by simp
  from scan_body_branches_exclusive[of literal_regexec ?m0 "''-MTmain.c''" "''/home/u''" True
      "''/home/u/foo.c''"] s1
  have "\<exists>path m'.
          fix_path True ''-MTmain.c'' ''/home/u'' ?m0 = Returns (path, m') \<and>
          scan_body literal_regexec True ''/home/u'' ''-MTmain.c'' (None, ?m0) =
            Returns (Continue (Some path, m'))"
    using u0 by (metis memory.select_convs(1))
  then have a: "scan_body literal_regexec True ''/home/u'' ''-MTmain.c'' (None, ?m0) =
      Returns (Continue (Some ''/home/u/-MTmain.c'',
        \<lparr>the_filter = cc_filter, strings = [''/home/u/-MTmain.c'']\<rparr>))"
    by (auto simp: fix_path_eq first_char_def)
  from scan_body_branches_exclusive[of literal_regexec ?m1 "''bar.c''" "''/home/u''" True
      "''/home/u/foo.c''"] c2
  have b: "scan_body literal_regexec True ''/home/u'' ''bar.c'' (Some ''/home/u/foo.c'', ?m1) =
      Returns (Continue (Some ''/home/u/foo.c'', ?m1))"
    using u1 by (metis memory.select_convs(1))
  from scan_body_branches_exclusive[of literal_regexec ?m1 "''-MD''" "''/home/u''" True
      "''/home/u/foo.c''"] c3 p
  have "scan_body literal_regexec True ''/home/u'' ''-MD'' (Some ''/home/u/foo.c'', ?m1) =
      Returns (Break (None, ?m1\<lparr>strings := remove1 ''/home/u/foo.c'' (strings ?m1)\<rparr>))"
    using u1 by (metis memory.select_convs(1))
  then have c: "scan_body literal_regexec True ''/home/u'' ''-MD'' (Some ''/home/u/foo.c'', ?m1) =
      Returns (Break (None, ?m0))"
    by simp
  from s1 c1 a s2 c2 b c3 c show ?thesis by simp
qed

subsection \<open>bear\_filter\_source\_file\<close>

text \<open>
  Claim C2. For every filter, the classification returns the verdict "none" (the null
  pointer) whenever the invocation has no arguments (\<^verbatim>\<open>cmd\<close> is NULL or its first
  element is NULL) or its first argument matches no pattern of the compilers set. The
  source-file set \<open>sf\<close> and the cancel set \<open>cp\<close> are arbitrary in the statement: they have
  no influence on this result, and the memory is left as it was.
\<close>

theorem not_a_compiler_call:
  assumes "args = None \<or> args = Some [] \<or>
           (\<exists>c0 rest. args = Some (c0 # rest) \<and> valid cs \<and>
              (\<forall>ot \<in> set (patterns cs). regexec ot c0 \<noteq> 0))"
  shows "bear_filter_source_file regexec mem
           \<lparr>the_filter = \<lparr>compilers = cs, source_files = sf, cancel_parameters = cp\<rparr>,
            strings = ss\<rparr>
           \<lparr>cmd = args, cwd = dir\<rparr> =
         Returns (None,
           \<lparr>the_filter = \<lparr>compilers = cs, source_files = sf, cancel_parameters = cp\<rparr>,
            strings = ss\<rparr>)"
  using assms
proof (elim disjE exE conjE)
  fix c0 rest
  assume "args = Some (c0 # rest)" "valid cs" "\<forall>ot \<in> set (patterns cs). regexec ot c0 \<noteq> 0"
  then show ?thesis
    by (simp add: bear_filter_source_file_def match_valid)
qed (simp_all add: bear_filter_source_file_def)

theorem not_a_compiler_call_witness:
  "bear_filter_source_file literal_regexec True \<lparr>the_filter = gcc_filter, strings = []\<rparr>
     \<lparr>cmd = Some [''clang'', ''foo.c''], cwd = ''/home/u''\<rparr> =
     Returns (None, \<lparr>the_filter = gcc_filter, strings = []\<rparr>) \<and>
   bear_filter_source_file literal_regexec True \<lparr>the_filter = gcc_filter, strings = []\<rparr>
     \<lparr>cmd = Some [], cwd = ''/home/u''\<rparr> =
     Returns (None, \<lparr>the_filter = gcc_filter, strings = []\<rparr>) \<and>
   bear_filter_source_file literal_regexec True \<lparr>the_filter = gcc_filter, strings = []\<rparr>
     \<lparr>cmd = None, cwd = ''/home/u''\<rparr> =
     Returns (None, \<lparr>the_filter = gcc_filter, strings = []\<rparr>)"
proof -
  let ?cs = "\<lparr>length_r = 1, regexs = Regexs [Whole ''gcc'']\<rparr>"
  let ?sf = "\<lparr>length_r = 1, regexs = Regexs [Ends ''.c'']\<rparr>"
  let ?cp = "\<lparr>length_r = 1, regexs = Regexs [Whole ''-E'']\<rparr>"
  have h: "Some [''clang'', ''foo.c''] = None \<or> Some [''clang'', ''foo.c''] = Some [] \<or>
           (\<exists>c0 rest. Some [''clang'', ''foo.c''] = Some (c0 # rest) \<and> valid ?cs \<and>
              (\<forall>ot \<in> set (patterns ?cs). literal_regexec ot c0 \<noteq> 0))"
    by (simp add: valid_def patterns_def)
  show ?thesis
    using not_a_compiler_call[OF h, of True ?sf ?cp "[]" "''/home/u''"]
      not_a_compiler_call[of "Some []" ?cs literal_regexec True ?sf ?cp "[]" "''/home/u''"]
      not_a_compiler_call[of None ?cs literal_regexec True ?sf ?cp "[]" "''/home/u''"]
    by (simp add: gcc_filter_def)
qed

text \<open>
  Claim C1 (if the first argument matches the compilers set, exactly one later argument
  matches the source-file set and no argument matches the cancel set, the verdict is that
  argument resolved against the working directory). As stated it does not hold: the scan
  starts at the first argument, so a program name that itself matches the source-file set
  is taken as the candidate. With the filter \<^verbatim>\<open>^cc\<close>, \<^verbatim>\<open>\.c$\<close>, \<^verbatim>\<open>^-M\<close> and the arguments
  \<^verbatim>\<open>cc.c foo.c\<close> the verdict is the path of \<^verbatim>\<open>cc.c\<close>, not that of \<^verbatim>\<open>foo.c\<close>.
\<close>

theorem single_later_source_file_counterexample:
  "match literal_regexec (compilers cc_filter) ''cc.c'' = Returns 1 \<and>
   match literal_regexec (source_files cc_filter) ''foo.c'' = Returns 1 \<and>
   match literal_regexec (cancel_parameters cc_filter) ''cc.c'' = Returns 0 \<and>
   match literal_regexec (cancel_parameters cc_filter) ''foo.c'' = Returns 0 \<and>
   fix_path True ''foo.c'' ''/home/u'' \<lparr>the_filter = cc_filter, strings = []\<rparr> =
     Returns (''/home/u/foo.c'', \<lparr>the_filter = cc_filter, strings = [''/home/u/foo.c'']\<rparr>) \<and>
   bear_filter_source_file literal_regexec True \<lparr>the_filter = cc_filter, strings = []\<rparr>
     \<lparr>cmd = Some [''cc.c'', ''foo.c''], cwd = ''/home/u''\<rparr> =
     Returns (Some ''/home/u/cc.c'', \<lparr>the_filter = cc_filter, strings = [''/home/u/cc.c'']\<rparr>) \<and>
   ''/home/u/cc.c'' \<noteq> ''/home/u/foo.c''"
  by (simp add: example_simps cc_filter_def)

text \<open>
  Claim C1, amended. If the first argument matches the compilers set and does not itself
  match the source-file set, exactly one later argument (the one at index \<open>i\<close> of the rest)
  matches the source-file set, and no argument matches the cancel set, then the
  classification returns \<open>fix_path\<close> of that argument and the working directory, when the
  allocation succeeds.
\<close>

theorem single_source_file_resolved:
  assumes "cmd e = Some (c0 # rest)"
    and "match regexec (compilers (the_filter m)) c0 = Returns 1"
    and "match regexec (source_files (the_filter m)) c0 = Returns 0"
    and "i < length rest"
    and "match regexec (source_files (the_filter m)) (rest ! i) = Returns 1"
    and "\<forall>j < length rest. j \<noteq> i \<longrightarrow>
           match regexec (source_files (the_filter m)) (rest ! j) = Returns 0"
    and "\<forall>a \<in> set (c0 # rest). match regexec (cancel_parameters (the_filter m)) a = Returns 0"
  shows "\<exists>path m'. fix_path True (rest ! i) (cwd e) m = Returns (path, m') \<and>
           bear_filter_source_file regexec True m e = Returns (Some path, m')"
proof -
  let ?a = "rest ! i"
  let ?p = "if CHR ''/'' = first_char ?a then ?a else cwd e @ ''/'' @ ?a"
  let ?m = "m\<lparr>strings := ?p # strings m\<rparr>"
  have split: "c0 # rest = (c0 # take i rest) @ ?a # drop (Suc i) rest"
    using assms(4) by (simp add: id_take_nth_drop[symmetric])
  have pre: "\<forall>a \<in> set (c0 # take i rest).
               match regexec (source_files (the_filter m)) a = Returns 0 \<and>
               match regexec (cancel_parameters (the_filter m)) a = Returns 0"
  proof
    fix a assume a: "a \<in> set (c0 # take i rest)"
    then have "a \<in> set (c0 # rest)" by (auto dest: in_set_takeD)
    with assms(7) have c: "match regexec (cancel_parameters (the_filter m)) a = Returns 0"
      by blast
    have "match regexec (source_files (the_filter m)) a = Returns 0"
    proof (cases "a = c0")
      case True
      with assms(3) show ?thesis by simp
    next
      case False
      with a have "a \<in> set (take i rest)" by simp
      then obtain j where j: "j < length (take i rest)" "a = take i rest ! j"
        by (auto simp: in_set_conv_nth)
      with assms(4) have "j < length rest" "j \<noteq> i" "a = rest ! j" by simp_all
      with assms(6) show ?thesis by simp
    qed
    with c show "match regexec (source_files (the_filter m)) a = Returns 0 \<and>
                 match regexec (cancel_parameters (the_filter m)) a = Returns 0" by simp
  qed
  have post: "\<forall>a \<in> set (drop (Suc i) rest).
                match regexec (cancel_parameters (the_filter ?m)) a = Returns 0"
    using assms(7) by (auto dest: in_set_dropD)
  have "scan regexec True (cwd e) (c0 # rest) (None, m) =
        scan regexec True (cwd e) (?a # drop (Suc i) rest) (None, m)"
    by (subst split) (rule scan_skip[OF pre])
  also have "\<dots> = scan regexec True (cwd e) (drop (Suc i) rest) (Some ?p, ?m)"
    by (rule scan_take[OF assms(5)])
  also have "\<dots> = Returns (Some ?p, ?m)"
    by (rule scan_keep[OF post])
  finally have "bear_filter_source_file regexec True m e = Returns (Some ?p, ?m)"
    using assms(1,2) by (simp add: bear_filter_source_file_def del: scan.simps)
  moreover have "fix_path True ?a (cwd e) m = Returns (?p, ?m)"
    by (simp add: fix_path_eq)
  ultimately show ?thesis by blast
qed

theorem single_source_file_resolved_witness:
  "\<exists>path m'.
     fix_path True ([''-c'', ''foo.c''] ! 1) ''/home/u'' \<lparr>the_filter = gcc_filter, strings = []\<rparr> =
       Returns (path, m') \<and>
     path = ''/home/u/foo.c'' \<and>
     bear_filter_source_file literal_regexec True \<lparr>the_filter = gcc_filter, strings = []\<rparr>
       \<lparr>cmd = Some [''gcc'', ''-c'', ''foo.c''], cwd = ''/home/u''\<rparr> = Returns (Some path, m')"
proof -
  let ?m = "\<lparr>the_filter = gcc_filter, strings = []\<rparr>"
  let ?e = "\<lparr>cmd = Some [''gcc'', ''-c'', ''foo.c''], cwd = ''/home/u''\<rparr>"
  have 1: "cmd ?e = Some (''gcc'' # [''-c'', ''foo.c''])" by simp
  have 2: "match literal_regexec (compilers (the_filter ?m)) ''gcc'' = Returns 1"
    by (simp add: example_simps gcc_filter_def)
  have 3: "match literal_regexec (source_files (the_filter ?m)) ''gcc'' = Returns 0"
    by (simp add: example_simps gcc_filter_def)
  have 4: "1 < length [''-c'', ''foo.c'']" by simp
  have 5: "match literal_regexec (source_files (the_filter ?m)) ([''-c'', ''foo.c''] ! 1) = Returns 1"
    by (simp add: example_simps gcc_filter_def)
  have 6: "\<forall>j < length [''-c'', ''foo.c'']. j \<noteq> 1 \<longrightarrow>
             match literal_regexec (source_files (the_filter ?m)) ([''-c'', ''foo.c''] ! j) = Returns 0"
    by (simp add: example_simps gcc_filter_def less_Suc_eq)
  have 7: "\<forall>a \<in> set (''gcc'' # [''-c'', ''foo.c'']).
             match literal_regexec (cancel_parameters (the_filter ?m)) a = Returns 0"
    by (simp add: example_simps gcc_filter_def)
  from single_source_file_resolved[OF 1 2 3 4 5 6 7] show ?thesis
    by (auto simp: fix_path_eq first_char_def)
qed

text \<open>
  Claim C3 (if any argument matches the cancel set, the verdict is "none"). As stated it
  does not hold: the argument that is taken as the candidate is not tested against the
  cancel set. With the filter \<^verbatim>\<open>^cc\<close>, \<^verbatim>\<open>\.c$\<close>, \<^verbatim>\<open>^-M\<close> and the arguments
  \<^verbatim>\<open>cc -MTmain.c\<close> the second argument matches the cancel set, and the verdict is its path.
\<close>

theorem cancel_match_counterexample:
  "valid_filter cc_filter \<and>
   match literal_regexec (compilers cc_filter) ''cc'' = Returns 1 \<and>
   match literal_regexec (cancel_parameters cc_filter) ''-MTmain.c'' = Returns 1 \<and>
   bear_filter_source_file literal_regexec True \<lparr>the_filter = cc_filter, strings = []\<rparr>
     \<lparr>cmd = Some [''cc'', ''-MTmain.c''], cwd = ''/home/u''\<rparr> =
     Returns (Some ''/home/u/-MTmain.c'',
       \<lparr>the_filter = cc_filter, strings = [''/home/u/-MTmain.c'']\<rparr>)"
  by (simp add: example_simps cc_filter_def)

text \<open>
  Claim C3, amended. For every valid filter and every invocation that passes the compiler
  check, if an argument \<open>c\<close> matches the cancel set and is not the argument taken as the
  candidate (an earlier argument matches the source-file set, or \<open>c\<close> itself does not),
  then the classification returns "none", also when an earlier argument had been taken
  as the candidate (its allocation having succeeded): the candidate is freed, the memory
  is as before the call. The arguments \<open>post\<close> after \<open>c\<close> are arbitrary: they are not
  consulted.
\<close>

theorem cancel_voids_invocation:
  assumes "valid_filter (the_filter m)"
    and "cmd e = Some (pre @ c # post)"
    and "match regexec (compilers (the_filter m)) (hd (pre @ [c])) = Returns 1"
    and "match regexec (cancel_parameters (the_filter m)) c = Returns 1"
    and "(\<exists>a \<in> set pre. match regexec (source_files (the_filter m)) a = Returns 1) \<or>
         match regexec (source_files (the_filter m)) c = Returns 0"
  shows "bear_filter_source_file regexec True m e = Returns (None, m)"
proof -
  obtain c0 cs where args: "pre @ c # post = c0 # cs" and c0: "c0 = hd (pre @ [c])"
    by (cases pre) simp_all
  from assms(1) have v: "valid (source_files (the_filter m))"
      "valid (cancel_parameters (the_filter m))"
    by (simp_all add: valid_filter_def)
  have "scan regexec True (cwd e) (pre @ c # post) (None, m) = Returns (None, m)"
    by (rule scan_cancel[OF v assms(4,5)])
  with args have "scan regexec True (cwd e) (c0 # cs) (None, m) = Returns (None, m)"
    by simp
  with assms(2,3) args c0 show ?thesis
    by (simp add: bear_filter_source_file_def del: scan.simps)
qed

theorem cancel_voids_invocation_witness:
  "bear_filter_source_file literal_regexec True \<lparr>the_filter = gcc_filter, strings = []\<rparr>
     \<lparr>cmd = Some ([''gcc'', ''foo.c''] @ ''-E'' # [''bar.c'']), cwd = ''/home/u''\<rparr> =
     Returns (None, \<lparr>the_filter = gcc_filter, strings = []\<rparr>) \<and>
   bear_filter_source_file literal_regexec True \<lparr>the_filter = gcc_filter, strings = []\<rparr>
     \<lparr>cmd = Some ([''gcc''] @ ''-E'' # [''foo.c'']), cwd = ''/home/u''\<rparr> =
     Returns (None, \<lparr>the_filter = gcc_filter, strings = []\<rparr>)"
proof -
  let ?e' = "\<lparr>cmd = Some ([''gcc''] @ ''-E'' # [''foo.c'']), cwd = ''/home/u''\<rparr>"
  have e2: "cmd ?e' = Some ([''gcc''] @ ''-E'' # [''foo.c''])"
    by simp
  let ?m = "\<lparr>the_filter = gcc_filter, strings = []\<rparr>"
  let ?e = "\<lparr>cmd = Some ([''gcc'', ''foo.c''] @ ''-E'' # [''bar.c'']), cwd = ''/home/u''\<rparr>"
  have 1: "valid_filter (the_filter ?m)"
    by (simp add: example_simps gcc_filter_def)
  have 2: "cmd ?e = Some ([''gcc'', ''foo.c''] @ ''-E'' # [''bar.c''])"
    by simp
  have 3: "match literal_regexec (compilers (the_filter ?m)) (hd ([''gcc'', ''foo.c''] @ [''-E'']))
             = Returns 1"
    by (simp add: example_simps gcc_filter_def)
  have 4: "match literal_regexec (cancel_parameters (the_filter ?m)) ''-E'' = Returns 1"
    by (simp add: example_simps gcc_filter_def)
  have 5: "(\<exists>a \<in> set [''gcc'', ''foo.c''].
              match literal_regexec (source_files (the_filter ?m)) a = Returns 1) \<or>
           match literal_regexec (source_files (the_filter ?m)) ''-E'' = Returns 0"
    by (simp add: example_simps gcc_filter_def)
  have e3: "match literal_regexec (compilers (the_filter ?m)) (hd ([''gcc''] @ [''-E'']))
              = Returns 1"
    by (simp add: example_simps gcc_filter_def)
  have e5: "(\<exists>a \<in> set [''gcc''].
               match literal_regexec (source_files (the_filter ?m)) a = Returns 1) \<or>
            match literal_regexec (source_files (the_filter ?m)) ''-E'' = Returns 0"
    by (simp add: example_simps gcc_filter_def)
  from cancel_voids_invocation[OF 1 2 3 4 5] cancel_voids_invocation[OF 1 e2 e3 4 e5]
  show ?thesis by simp
qed

text \<open>
  Claim C10. Whenever the classification returns a path, the arguments split into
  \<open>pre @ a # post\<close> where the first of them (the program name, which is \<open>a\<close> itself when
  \<open>pre\<close> is empty) matches the compilers set, \<open>a\<close> matches the source-file set and the
  returned path is \<open>fix_path\<close> of \<open>a\<close> and the working directory; no argument before \<open>a\<close>
  matches the source-file set or the cancel set, and no argument after \<open>a\<close> matches the
  cancel set.
\<close>

theorem verdict_is_earliest_source_file:
  assumes "bear_filter_source_file regexec mem m e = Returns (Some path, m')"
  shows "\<exists>pre a post.
           cmd e = Some (pre @ a # post) \<and>
           match regexec (compilers (the_filter m)) (hd (pre @ [a])) = Returns 1 \<and>
           match regexec (source_files (the_filter m)) a = Returns 1 \<and>
           fix_path True a (cwd e) m = Returns (path, m') \<and>
           (\<forall>x \<in> set pre. match regexec (source_files (the_filter m)) x = Returns 0 \<and>
                            match regexec (cancel_parameters (the_filter m)) x = Returns 0) \<and>
           (\<forall>x \<in> set post. match regexec (cancel_parameters (the_filter m)) x = Returns 0)"
proof -
  from classify_cases[OF assms] obtain c0 cs where
    args: "cmd e = Some (c0 # cs)" and
    comp: "match regexec (compilers (the_filter m)) c0 = Returns 1" and
    sc: "scan regexec mem (cwd e) (c0 # cs) (None, m) = Returns (Some path, m')"
    by auto
  from scan_None_inv[OF sc] obtain pre a post where
    split: "c0 # cs = pre @ a # post" and
    pre: "\<forall>x \<in> set pre. match regexec (source_files (the_filter m)) x = Returns 0 \<and>
                          match regexec (cancel_parameters (the_filter m)) x = Returns 0" and
    src: "match regexec (source_files (the_filter m)) a = Returns 1" and
    fp: "fix_path mem a (cwd e) m = Returns (path, m')" and
    post: "\<forall>x \<in> set post. match regexec (cancel_parameters (the_filter m)) x = Returns 0"
    by blast
  from split have "hd (pre @ [a]) = c0"
    by (cases pre) simp_all
  with comp have "match regexec (compilers (the_filter m)) (hd (pre @ [a])) = Returns 1"
    by simp
  moreover from fp have "fix_path True a (cwd e) m = Returns (path, m')"
    by (simp add: fix_path_Returns)
  ultimately show ?thesis
    using args split pre src post
    by (intro exI[of _ pre] exI[of _ a] exI[of _ post]) simp
qed

theorem verdict_is_earliest_source_file_witness:
  "\<exists>pre a post.
     [''gcc'', ''-c'', ''foo.c''] = pre @ a # post \<and>
     match literal_regexec (compilers gcc_filter) (hd (pre @ [a])) = Returns 1 \<and>
     match literal_regexec (source_files gcc_filter) a = Returns 1 \<and>
     fix_path True a ''/home/u'' \<lparr>the_filter = gcc_filter, strings = []\<rparr> =
       Returns (''/home/u/foo.c'', \<lparr>the_filter = gcc_filter, strings = [''/home/u/foo.c'']\<rparr>) \<and>
     (\<forall>x \<in> set pre. match literal_regexec (source_files gcc_filter) x = Returns 0 \<and>
                      match literal_regexec (cancel_parameters gcc_filter) x = Returns 0) \<and>
     (\<forall>x \<in> set post. match literal_regexec (cancel_parameters gcc_filter) x = Returns 0)"
  using verdict_is_earliest_source_file[OF gcc_scenario] by simp

text \<open>
  Claim C9. The classification never modifies the filter: whenever a call returns, the
  three pattern sets of the filter object are what they were before the call.
\<close>

theorem filter_unchanged_by_classification:
  assumes "bear_filter_source_file regexec mem m e = Returns (verdict, m')"
  shows "compilers (the_filter m') = compilers (the_filter m) \<and>
         source_files (the_filter m') = source_files (the_filter m) \<and>
         cancel_parameters (the_filter m') = cancel_parameters (the_filter m)"
  using classify_filter[OF assms] by simp

theorem filter_unchanged_by_classification_witness:
  "bear_filter_source_file literal_regexec True \<lparr>the_filter = gcc_filter, strings = []\<rparr>
     \<lparr>cmd = Some [''gcc'', ''-c'', ''foo.c''], cwd = ''/home/u''\<rparr> =
     Returns (Some ''/home/u/foo.c'',
       \<lparr>the_filter = gcc_filter, strings = [''/home/u/foo.c'']\<rparr>) \<and>
   compilers (the_filter \<lparr>the_filter = gcc_filter, strings = [''/home/u/foo.c'']\<rparr>) =
     compilers (the_filter \<lparr>the_filter = gcc_filter, strings = []\<rparr>) \<and>
   source_files (the_filter \<lparr>the_filter = gcc_filter, strings = [''/home/u/foo.c'']\<rparr>) =
     source_files (the_filter \<lparr>the_filter = gcc_filter, strings = []\<rparr>) \<and>
   cancel_parameters (the_filter \<lparr>the_filter = gcc_filter, strings = [''/home/u/foo.c'']\<rparr>) =
     cancel_parameters (the_filter \<lparr>the_filter = gcc_filter, strings = []\<rparr>)"
  using gcc_scenario filter_unchanged_by_classification[OF gcc_scenario] by blast

text \<open>
  Claim C8. The classification is deterministic: if a call returns a verdict, then every
  call on the same invocation with the same filter (whatever the strings of the heap
  are, and whether its allocation succeeds) that returns, returns the same verdict; and
  such a call does return it when its allocation succeeds. This covers a second call made
  in the memory the first call left.
\<close>

theorem classification_deterministic:
  assumes "bear_filter_source_file regexec mem1 m1 e = Returns (v1, m1')"
    and "the_filter m2 = the_filter m1"
  shows "(\<forall>v2 m2'. bear_filter_source_file regexec mem2 m2 e = Returns (v2, m2') \<longrightarrow> v2 = v1) \<and>
         (\<exists>m2'. bear_filter_source_file regexec True m2 e = Returns (v1, m2'))"
proof (intro conjI allI impI)
  fix v2 m2'
  assume second: "bear_filter_source_file regexec mem2 m2 e = Returns (v2, m2')"
  from classify_cases[OF assms(1)] classify_cases[OF second] assms(2)
  show "v2 = v1"
    by (auto dest: scan_agree simp del: scan.simps)
next
  from classify_cases[OF assms(1)]
  show "\<exists>m2'. bear_filter_source_file regexec True m2 e = Returns (v1, m2')"
  proof (elim disjE conjE exE)
    fix c0 cs
    assume args: "cmd e = Some (c0 # cs)"
      and comp: "match regexec (compilers (the_filter m1)) c0 = Returns 1"
      and sc: "scan regexec mem1 (cwd e) (c0 # cs) (None, m1) = Returns (v1, m1')"
    from scan_rerun[OF sc assms(2)] obtain m2' where
      "scan regexec True (cwd e) (c0 # cs) (None, m2) = Returns (v1, m2')"
      by auto
    with args comp assms(2) show ?thesis
      by (simp add: bear_filter_source_file_def del: scan.simps)
  qed (simp_all add: bear_filter_source_file_def assms(2))
qed

theorem classification_deterministic_witness:
  "bear_filter_source_file literal_regexec True \<lparr>the_filter = gcc_filter, strings = []\<rparr>
     \<lparr>cmd = Some [''gcc'', ''-c'', ''foo.c''], cwd = ''/home/u''\<rparr> =
     Returns (Some ''/home/u/foo.c'',
       \<lparr>the_filter = gcc_filter, strings = [''/home/u/foo.c'']\<rparr>) \<and>
   the_filter \<lparr>the_filter = gcc_filter, strings = [''/home/u/foo.c'']\<rparr> =
     the_filter \<lparr>the_filter = gcc_filter, strings = []\<rparr> \<and>
   (\<exists>m2'. bear_filter_source_file literal_regexec True
            \<lparr>the_filter = gcc_filter, strings = [''/home/u/foo.c'']\<rparr>
            \<lparr>cmd = Some [''gcc'', ''-c'', ''foo.c''], cwd = ''/home/u''\<rparr> =
          Returns (Some ''/home/u/foo.c'', m2'))"
proof -
  have same: "the_filter \<lparr>the_filter = gcc_filter, strings = [''/home/u/foo.c'']\<rparr> =
              the_filter \<lparr>the_filter = gcc_filter, strings = []\<rparr>"
    by simp
  from classification_deterministic[OF gcc_scenario same] gcc_scenario same
  show ?thesis by blast
qed

end
